theory Spec2Isabelle
  imports Main
begin

section \<open>Parsed XML trees\<close>

text \<open>
  The adapters exchange plain JavaScript values. A value is \<open>null\<close>, \<open>undefined\<close>, a
  primitive (boolean, number, string), an array, or an object. The normalizer never looks
  inside a primitive, so the payload of a number is kept as an integer.

  An object is the list of its own enumerable properties in the order
  \<open>Object.entries\<close> reports them. A JavaScript object never holds the same key twice;
  \<open>well_formed\<close> states this representation invariant for every object of a tree.
  The entries are listed in an order \<open>Object.entries\<close> can report. A tree records own
  properties only: the prototype of an object is not part of it. An object can hold an
  own property named \<open>__proto__\<close> (\<open>JSON.parse\<close> makes one); \<open>proto_free\<close> says that
  no object the normalizer rebuilds has one.
\<close>

datatype prim = PBool bool | PNum int | PStr string

datatype jsval =
    JNull
  | JUndefined
  | JPrim prim
  | JArr "jsval list"
  | JObj "(string \<times> jsval) list"

fun well_formed :: "jsval \<Rightarrow> bool" where
  "well_formed (JArr items) = list_all well_formed items"
| "well_formed (JObj entries) =
     (distinct (map fst entries) \<and> list_all (\<lambda>(key, v). well_formed v) entries)"
| "well_formed _ = True"

fun is_array :: "jsval \<Rightarrow> bool" where
  "is_array (JArr _) = True"
| "is_array _ = False"

text \<open>
  Writing an own data property: an existing property keeps its place and takes the new
  value, a new property is added after the existing ones.
\<close>

fun define_prop :: "string \<Rightarrow> jsval \<Rightarrow> (string \<times> jsval) list \<Rightarrow> (string \<times> jsval) list" where
  "define_prop key v [] = [(key, v)]"
| "define_prop key v ((k, old) # props) =
     (if k = key then (k, v) # props else (k, old) # define_prop key v props)"

text \<open>
  \<open>normalized[key] = v\<close> on the object the normalizer builds from \<open>{}\<close>. The key
  \<open>__proto__\<close> reaches the accessor inherited from \<open>Object.prototype\<close>: the assignment
  runs its setter, which changes the prototype at most, and no own property is written.
  Every other key writes an own data property.
\<close>

definition set_prop :: "string \<Rightarrow> jsval \<Rightarrow> (string \<times> jsval) list \<Rightarrow> (string \<times> jsval) list" where
  "set_prop key v props = (if key = ''__proto__'' then props else define_prop key v props)"

text \<open>
  No object the normalizer rebuilds holds an own property named \<open>__proto__\<close>: the objects
  reached through arrays and through the values of keys other than \<open>$\<close>.
\<close>

fun proto_free :: "jsval \<Rightarrow> bool" where
  "proto_free (JArr items) = list_all proto_free items"
| "proto_free (JObj entries) =
     (''__proto__'' \<notin> set (map fst entries) \<and>
      list_all (\<lambda>(key, v). key = ''$'' \<or> proto_free v) entries)"
| "proto_free _ = True"

text \<open>\<open>obj[key]\<close> on own properties: \<open>None\<close> when the object has no such property.\<close>

fun get_prop :: "jsval \<Rightarrow> string \<Rightarrow> jsval option" where
  "get_prop (JObj entries) key = map_of entries key"
| "get_prop _ key = None"

fun keys_of :: "jsval \<Rightarrow> string list" where
  "keys_of (JObj entries) = map fst entries"
| "keys_of _ = []"

fun is_object :: "jsval \<Rightarrow> bool" where
  "is_object (JObj _) = True"
| "is_object _ = False"

fun array_length :: "jsval \<Rightarrow> nat option" where
  "array_length (JArr items) = Some (length items)"
| "array_length _ = None"

section \<open>The normalizer of fxpAdapter.ts\<close>

text \<open>
  \<open>normalizeToXml2jsFormat\<close>, branch by branch: \<open>null\<close> and \<open>undefined\<close> are returned,
  an array is mapped, an object is rebuilt property by property in a fresh object by the
  \<open>for\<close> loop over \<open>Object.entries\<close>, anything else is wrapped in an array.
\<close>

fun normalizeToXml2jsFormat :: "jsval \<Rightarrow> jsval" where
  "normalizeToXml2jsFormat JNull = JNull"
| "normalizeToXml2jsFormat JUndefined = JUndefined"
| "normalizeToXml2jsFormat (JArr items) = JArr (map normalizeToXml2jsFormat items)"
| "normalizeToXml2jsFormat (JObj entries) =
     JObj (fold (\<lambda>(key, v) normalized.
              if key = ''$'' then set_prop key v normalized
              else (case v of
                      JArr items \<Rightarrow>
                        set_prop key (JArr (map normalizeToXml2jsFormat items)) normalized
                    | JObj es \<Rightarrow>
                        set_prop key (JArr [normalizeToXml2jsFormat (JObj es)]) normalized
                    | _ \<Rightarrow> set_prop key (JArr [v]) normalized))
            entries [])"
| "normalizeToXml2jsFormat (JPrim p) = JArr [JPrim p]"

text \<open>The value the loop stores under one key.\<close>

definition entry_value :: "string \<Rightarrow> jsval \<Rightarrow> jsval" where
  "entry_value key v =
     (if key = ''$'' then v
      else (case v of
              JArr items \<Rightarrow> JArr (map normalizeToXml2jsFormat items)
            | JObj es \<Rightarrow> JArr [normalizeToXml2jsFormat (JObj es)]
            | _ \<Rightarrow> JArr [v]))"

text \<open>
  The canonicalizer as the specification words it: the attributes key passes through; under
  any other key a sequence is normalized element by element, a non-scalar value is
  normalized and wrapped, a scalar is wrapped.
\<close>

fun normalize_spec :: "jsval \<Rightarrow> jsval" where
  "normalize_spec JNull = JNull"
| "normalize_spec JUndefined = JUndefined"
| "normalize_spec (JArr items) = JArr (map normalize_spec items)"
| "normalize_spec (JObj entries) =
     JObj (map (\<lambda>(key, v).
              if key = ''$'' then (key, v)
              else (case v of
                      JArr items \<Rightarrow> (key, JArr (map normalize_spec items))
                    | JPrim p \<Rightarrow> (key, JArr [v])
                    | _ \<Rightarrow> (key, JArr [normalize_spec v])))
            entries)"
| "normalize_spec (JPrim p) = JArr [JPrim p]"

text \<open>
  The canonical shape: in every element node every value under a key other than \<open>$\<close> is
  an array, at every depth. The value under \<open>$\<close> holds the attributes of the element, not
  child elements, and is not inspected.
\<close>

fun canonical :: "jsval \<Rightarrow> bool" where
  "canonical (JArr items) = list_all canonical items"
| "canonical (JObj entries) =
     list_all (\<lambda>(key, v). key = ''$'' \<or> (is_array v \<and> canonical v)) entries"
| "canonical _ = True"

subsection \<open>The recursion, with the call depth bounded\<close>

text \<open>
  The same function with a bound on the depth of the call stack: \<open>None\<close> when the bound is
  reached before the recursion has returned.
\<close>

fun normalize_fuel :: "nat \<Rightarrow> jsval \<Rightarrow> jsval option" where
  "normalize_fuel 0 t = None"
| "normalize_fuel (Suc n) JNull = Some JNull"
| "normalize_fuel (Suc n) JUndefined = Some JUndefined"
| "normalize_fuel (Suc n) (JArr items) =
     map_option JArr (those (map (normalize_fuel n) items))"
| "normalize_fuel (Suc n) (JObj entries) =
     map_option JObj
       (fold (\<lambda>(key, v) acc.
            case acc of
              None \<Rightarrow> None
            | Some normalized \<Rightarrow>
                if key = ''$'' then Some (set_prop key v normalized)
                else (case v of
                        JArr items \<Rightarrow>
                          map_option (\<lambda>items'. set_prop key (JArr items') normalized)
                            (those (map (normalize_fuel n) items))
                      | JObj es \<Rightarrow>
                          map_option (\<lambda>v'. set_prop key (JArr [v']) normalized)
                            (normalize_fuel n (JObj es))
                      | _ \<Rightarrow> Some (set_prop key (JArr [v]) normalized)))
          entries (Some []))"
| "normalize_fuel (Suc n) (JPrim p) = Some (JArr [JPrim p])"

text \<open>The arguments of the recursive calls one invocation makes, in call order.\<close>

fun recursive_calls :: "jsval \<Rightarrow> jsval list" where
  "recursive_calls (JArr items) = items"
| "recursive_calls (JObj entries) =
     concat (map (\<lambda>(key, v).
                if key = ''$'' then []
                else (case v of JArr items \<Rightarrow> items | JObj es \<Rightarrow> [v] | _ \<Rightarrow> []))
             entries)"
| "recursive_calls _ = []"

text \<open>The number of nodes of a tree.\<close>

fun nodes :: "jsval \<Rightarrow> nat" where
  "nodes (JArr items) = Suc (sum_list (map nodes items))"
| "nodes (JObj entries) = Suc (sum_list (map (\<lambda>(key, v). nodes v) entries))"
| "nodes _ = 1"

section \<open>The fast-xml-parser adapters\<close>

text \<open>
  The options both versions of \<open>FastXmlParserAdapter\<close> pass to \<open>new XMLParser\<close>. The
  library is not part of the repository: its \<open>parse\<close> is a parameter, a function of the
  options and the document that returns a tree or throws.
\<close>

record X2jOptions =
  ignoreAttributes :: bool
  allowBooleanAttributes :: bool
  parseAttributeValue :: bool
  trimValues :: bool

type_synonym XMLParser = "X2jOptions \<Rightarrow> string \<Rightarrow> string + jsval"

record FastXmlParserAdapter =
  parser :: X2jOptions

text \<open>The constructor of fxpAdapter.ts.\<close>

definition FastXmlParserAdapter_new :: FastXmlParserAdapter where
  "FastXmlParserAdapter_new =
     \<lparr>parser = \<lparr>ignoreAttributes = False, allowBooleanAttributes = True,
                 parseAttributeValue = True, trimValues = False\<rparr>\<rparr>"

text \<open>\<open>parse\<close> of fxpAdapter.ts: a rejected promise is \<open>Inl\<close>.\<close>

definition FastXmlParserAdapter_parse ::
    "XMLParser \<Rightarrow> FastXmlParserAdapter \<Rightarrow> string \<Rightarrow> string + jsval" where
  "FastXmlParserAdapter_parse lib this xml =
     (case lib (parser this) xml of
        Inl err \<Rightarrow> Inl err
      | Inr result \<Rightarrow> Inr (normalizeToXml2jsFormat result))"

text \<open>The constructor and \<open>parse\<close> of the adapter without the normalization pass.\<close>

definition PlainFastXmlParserAdapter_new :: FastXmlParserAdapter where
  "PlainFastXmlParserAdapter_new =
     \<lparr>parser = \<lparr>ignoreAttributes = False, allowBooleanAttributes = True,
                 parseAttributeValue = True, trimValues = False\<rparr>\<rparr>"

definition PlainFastXmlParserAdapter_parse ::
    "XMLParser \<Rightarrow> FastXmlParserAdapter \<Rightarrow> string \<Rightarrow> string + jsval" where
  "PlainFastXmlParserAdapter_parse lib this xml = lib (parser this) xml"

section \<open>The dynamically loaded adapter of rustWasmAdapter.ts\<close>

text \<open>
  The three places \<open>loadWasm\<close> passes to \<open>require\<close>:
  \<open>path.join(__dirname, '../bench/wasm/pkg/vmix_xml.js')\<close>,
  \<open>path.join(process.cwd(), 'src/bench/wasm/pkg/vmix_xml.js')\<close> and
  \<open>'./vmix_xml_wasm'\<close>.
\<close>

datatype location = Production | Development | Sibling

text \<open>
  What calling the module's \<open>default\<close> export does: it throws at once, or it returns a
  value or promise that \<open>await\<close> later turns into a result or into an error.
\<close>

datatype init_result = InitOk | InitRejects string | InitThrows string

text \<open>
  A loaded module, as far as the adapter looks at it: \<open>default_fn\<close> is \<open>None\<close> when
  \<open>typeof default\<close> is not \<open>'function'\<close>, \<open>parse_fn\<close> is \<open>None\<close> when \<open>typeof parse\<close>
  is not \<open>'function'\<close>; a parser returns a tree or throws.
\<close>

record wasm_module =
  default_fn :: "init_result option"
  parse_fn :: "(string \<Rightarrow> string + jsval) option"

text \<open>
  \<open>require\<close> is a parameter: at a location it throws (\<open>Inl\<close>, with the message) or returns
  the module's exports; \<open>Inr None\<close> is a falsy export, which the adapter cannot tell from
  \<open>null\<close>.
\<close>

type_synonym require = "location \<Rightarrow> string + wasm_module option"

datatype promise = Pending | Fulfilled | Rejected string

text \<open>
  The adapter object and what surrounds it. \<open>wasm\<close> and \<open>loadPromise\<close> are the two
  fields; \<open>loadPromise\<close> refers to a promise by its index in \<open>promises\<close>, which holds one
  promise for every invocation of \<open>loadWasm\<close>. \<open>required\<close> logs the locations passed to
  \<open>require\<close>. \<open>waiting\<close> holds the \<open>parse\<close> calls suspended at \<open>await this.loadPromise\<close>,
  each with the promise it awaits and its argument; \<open>finished\<close> holds the calls that have
  settled, each with its argument and its outcome (\<open>Inl\<close>: rejected with that message).
\<close>

record system =
  wasm :: "wasm_module option"
  loadPromise :: "nat option"
  promises :: "promise list"
  required :: "location list"
  waiting :: "(nat \<times> string) list"
  finished :: "(string \<times> (string + jsval)) list"

definition failed_to_load :: "string \<Rightarrow> string" where
  "failed_to_load msg = ''Failed to load Rust WASM module: '' @ msg"

definition no_parse_export :: string where
  "no_parse_export = ''Rust WASM module does not export parse function''"

definition not_available :: string where
  "not_available = ''Rust WASM module is not available''"

text \<open>The nested \<open>try\<close> blocks around the three \<open>require\<close> calls.\<close>

definition require_chain :: "require \<Rightarrow> location list \<times> (string + wasm_module option)" where
  "require_chain req =
     (case req Production of
        Inr m \<Rightarrow> ([Production], Inr m)
      | Inl _ \<Rightarrow>
          (case req Development of
             Inr m \<Rightarrow> ([Production, Development], Inr m)
           | Inl _ \<Rightarrow>
               (case req Sibling of
                  Inr m \<Rightarrow> ([Production, Development, Sibling], Inr m)
                | Inl err \<Rightarrow> ([Production, Development, Sibling], Inl err))))"

text \<open>\<open>this.wasm && typeof this.wasm.parse === 'function'\<close>\<close>

definition has_parse :: "wasm_module option \<Rightarrow> bool" where
  "has_parse w = (case w of None \<Rightarrow> False | Some m \<Rightarrow> parse_fn m \<noteq> None)"

text \<open>The check that ends \<open>loadWasm\<close>, after the \<open>try\<close> block.\<close>

definition loadWasm_check :: "system \<Rightarrow> promise" where
  "loadWasm_check s = (if has_parse (wasm s) then Fulfilled else Rejected no_parse_export)"

text \<open>
  \<open>loadWasm\<close> up to its first suspension: the state it leaves and the state of the promise
  it returns, \<open>Pending\<close> when it is suspended at \<open>await this.wasm.default()\<close>.
\<close>

definition loadWasm_body :: "require \<Rightarrow> system \<Rightarrow> system \<times> promise" where
  "loadWasm_body req s =
     (if wasm s \<noteq> None then (s, Fulfilled)
      else
        (case require_chain req of
           (locs, Inl err) \<Rightarrow> (s\<lparr>required := required s @ locs\<rparr>, Rejected (failed_to_load err))
         | (locs, Inr m) \<Rightarrow>
             (let s' = s\<lparr>required := required s @ locs, wasm := m\<rparr> in
              (case m of
                 None \<Rightarrow> (s', loadWasm_check s')
               | Some md \<Rightarrow>
                   (case default_fn md of
                      None \<Rightarrow> (s', loadWasm_check s')
                    | Some (InitThrows err) \<Rightarrow> (s', Rejected (failed_to_load err))
                    | Some _ \<Rightarrow> (s', Pending))))))"

text \<open>The rest of \<open>loadWasm\<close>, run when the awaited initialisation settles.\<close>

definition loadWasm_resume :: "system \<Rightarrow> promise" where
  "loadWasm_resume s =
     (case wasm s of
        None \<Rightarrow> loadWasm_check s
      | Some md \<Rightarrow>
          (case default_fn md of
             Some (InitRejects err) \<Rightarrow> Rejected (failed_to_load err)
           | _ \<Rightarrow> loadWasm_check s))"

text \<open>A call of \<open>loadWasm\<close>: the promise it returns is a new one.\<close>

definition loadWasm :: "require \<Rightarrow> system \<Rightarrow> system \<times> nat" where
  "loadWasm req s =
     (case loadWasm_body req s of
        (s', p) \<Rightarrow> (s'\<lparr>promises := promises s' @ [p]\<rparr>, length (promises s')))"

text \<open>The field initialisers (nothing is loaded, required or called yet) and the constructor.\<close>

definition initial :: system where
  "initial = \<lparr>wasm = None, loadPromise = None, promises = [], required = [],
               waiting = [], finished = []\<rparr>"

definition RustWasmAdapter_new :: "require \<Rightarrow> system" where
  "RustWasmAdapter_new req =
     (case loadWasm req initial of (s, p) \<Rightarrow> s\<lparr>loadPromise := Some p\<rparr>)"

text \<open>\<open>parse\<close> from the availability check on.\<close>

definition parse_rest :: "system \<Rightarrow> string \<Rightarrow> string + jsval" where
  "parse_rest s xml =
     (case wasm s of
        None \<Rightarrow> Inl not_available
      | Some m \<Rightarrow>
          (case parse_fn m of
             None \<Rightarrow> Inl not_available
           | Some p \<Rightarrow> p xml))"

text \<open>
  One step of the system after construction: a caller starts \<open>parse\<close> and is suspended
  at the \<open>await\<close> or, when \<open>loadPromise\<close> is \<open>null\<close>, runs to the end; the initialisation a
  load awaits settles; a suspended caller is resumed by the promise it awaits.
\<close>

inductive step :: "system \<Rightarrow> system \<Rightarrow> bool" where
  parse_awaits:
    "loadPromise s = Some r \<Longrightarrow>
     step s (s\<lparr>waiting := waiting s @ [(r, xml)]\<rparr>)"
| parse_direct:
    "loadPromise s = None \<Longrightarrow>
     step s (s\<lparr>finished := finished s @ [(xml, parse_rest s xml)]\<rparr>)"
| init_settles:
    "r < length (promises s) \<Longrightarrow> promises s ! r = Pending \<Longrightarrow>
     step s (s\<lparr>promises := (promises s)[r := loadWasm_resume s]\<rparr>)"
| resume_rejected:
    "(r, xml) \<in> set (waiting s) \<Longrightarrow> r < length (promises s) \<Longrightarrow>
     promises s ! r = Rejected err \<Longrightarrow>
     step s (s\<lparr>waiting := remove1 (r, xml) (waiting s),
              finished := finished s @ [(xml, Inl err)]\<rparr>)"
| resume_fulfilled:
    "(r, xml) \<in> set (waiting s) \<Longrightarrow> r < length (promises s) \<Longrightarrow>
     promises s ! r = Fulfilled \<Longrightarrow>
     step s (s\<lparr>waiting := remove1 (r, xml) (waiting s), loadPromise := None,
              finished := finished s @ [(xml, parse_rest s xml)]\<rparr>)"

inductive reachable :: "require \<Rightarrow> system \<Rightarrow> bool" for req where
  constructed: "reachable req (RustWasmAdapter_new req)"
| stepped: "reachable req s \<Longrightarrow> step s s' \<Longrightarrow> reachable req s'"

text \<open>The promise the constructor's load ends with, once it has settled.\<close>

definition load_result :: "require \<Rightarrow> promise" where
  "load_result req =
     (case loadWasm_body req initial of
        (s, p) \<Rightarrow> (if p = Pending then loadWasm_resume s else p))"

text \<open>What a \<open>parse\<close> call on an adapter built over \<open>req\<close> settles with.\<close>

definition parse_outcome :: "require \<Rightarrow> string \<Rightarrow> string + jsval" where
  "parse_outcome req xml =
     (case load_result req of
        Rejected err \<Rightarrow> Inl err
      | _ \<Rightarrow> parse_rest (RustWasmAdapter_new req) xml)"

subsection \<open>What the specification says of loading\<close>

text \<open>
  The probe order, the locations a load is expected to try (every location up to and
  including the first that loads, all three when none does) and the module it is expected
  to use.
\<close>

definition probe_order :: "location list" where
  "probe_order = [Production, Development, Sibling]"

definition loadable :: "require \<Rightarrow> location \<Rightarrow> bool" where
  "loadable req l = (case req l of Inl _ \<Rightarrow> False | Inr _ \<Rightarrow> True)"

definition expected_probes :: "require \<Rightarrow> location list" where
  "expected_probes req =
     (case find (loadable req) probe_order of
        None \<Rightarrow> probe_order
      | Some l \<Rightarrow> takeWhile (\<lambda>l'. \<not> loadable req l') probe_order @ [l])"

definition first_loaded :: "require \<Rightarrow> wasm_module option" where
  "first_loaded req =
     (case find (loadable req) probe_order of
        None \<Rightarrow> None
      | Some l \<Rightarrow> (case req l of Inl _ \<Rightarrow> None | Inr m \<Rightarrow> m))"

text \<open>
  The adapter cannot be made available: no location yields a loadable module, or the
  initialisation of the loaded module fails, or the loaded module has no \<open>parse\<close>
  function.
\<close>

definition init_fails :: "wasm_module \<Rightarrow> bool" where
  "init_fails m =
     (case default_fn m of
        Some (InitRejects _) \<Rightarrow> True
      | Some (InitThrows _) \<Rightarrow> True
      | _ \<Rightarrow> False)"

definition unavailable :: "require \<Rightarrow> bool" where
  "unavailable req =
     (case find (loadable req) probe_order of
        None \<Rightarrow> True
      | Some l \<Rightarrow>
          (case first_loaded req of
             None \<Rightarrow> True
           | Some m \<Rightarrow> init_fails m \<or> parse_fn m = None))"

text \<open>The two errors \<open>loadWasm\<close> throws.\<close>

definition load_error :: "string \<Rightarrow> bool" where
  "load_error err =
     (err = no_parse_export \<or>
      take (length ''Failed to load Rust WASM module: '') err
        = ''Failed to load Rust WASM module: '')"

text \<open>What holds of every state of an adapter built over \<open>req\<close>.\<close>

definition inv :: "require \<Rightarrow> system \<Rightarrow> bool" where
  "inv req s \<longleftrightarrow>
     wasm s = wasm (RustWasmAdapter_new req) \<and>
     required s = required (RustWasmAdapter_new req) \<and>
     (promises s = [Pending] \<and> snd (loadWasm_body req initial) = Pending \<or>
      promises s = [load_result req]) \<and>
     (loadPromise s = Some 0 \<or> loadPromise s = None \<and> promises s = [Fulfilled]) \<and>
     (\<forall>(r, xml) \<in> set (waiting s). r = 0) \<and>
     (\<forall>(xml, res) \<in> set (finished s). res = parse_outcome req xml)"

section \<open>Sample values\<close>

definition sample_tree :: jsval where
  "sample_tree =
     JObj [(''$'', JObj [(''key'', JPrim (PNum 1))]),
           (''title'', JPrim (PStr ''Cam1'')),
           (''overlay'', JArr [JPrim (PStr ''a''), JNull, JObj [(''index'', JPrim (PNum 0))]]),
           (''position'', JObj [(''panX'', JPrim (PBool True))]),
           (''empty'', JNull)]"

text \<open>The value of \<open>JSON.parse('{"__proto__": 1, "a": 2}')\<close>.\<close>

definition proto_entries :: "(string \<times> jsval) list" where
  "proto_entries = [(''__proto__'', JPrim (PNum 1)), (''a'', JPrim (PNum 2))]"

definition sample_parse :: "string \<Rightarrow> string + jsval" where
  "sample_parse xml =
     (if xml = [] then Inl ''unexpected end of input''
      else Inr (JObj [(''vmix'', JArr [JPrim (PStr xml)])]))"

definition sample_lib :: XMLParser where
  "sample_lib opts xml =
     (if xml = [] then Inl ''unexpected end of input''
      else Inr (JObj [(''vmix'', JPrim (PStr xml))]))"

definition sample_module :: wasm_module where
  "sample_module = \<lparr>default_fn = Some InitOk, parse_fn = Some sample_parse\<rparr>"

text \<open>A module found at the development location only, and a run of its adapter.\<close>

definition dev_only :: require where
  "dev_only l =
     (case l of Development \<Rightarrow> Inr (Some sample_module) | _ \<Rightarrow> Inl ''Cannot find module'')"

definition dev_only_run :: system where
  "dev_only_run =
     \<lparr>wasm = Some sample_module, loadPromise = None, promises = [Fulfilled],
      required = [Production, Development], waiting = [],
      finished = [(''<vmix/>'', Inr (JObj [(''vmix'', JArr [JPrim (PStr ''<vmix/>'')])]))]\<rparr>"

text \<open>A module at the production location whose initialisation fails, and a run.\<close>

definition broken_init :: require where
  "broken_init l =
     (case l of
        Production \<Rightarrow> Inr (Some \<lparr>default_fn = Some (InitRejects ''out of memory''),
                                  parse_fn = Some sample_parse\<rparr>)
      | _ \<Rightarrow> Inl ''Cannot find module'')"

definition broken_init_run :: system where
  "broken_init_run =
     \<lparr>wasm = Some \<lparr>default_fn = Some (InitRejects ''out of memory''),
                   parse_fn = Some sample_parse\<rparr>,
      loadPromise = Some 0,
      promises = [Rejected ''Failed to load Rust WASM module: out of memory''],
      required = [Production], waiting = [],
      finished = [(''<vmix/>'', Inl ''Failed to load Rust WASM module: out of memory'')]\<rparr>"

section \<open>Properties of the normalizer\<close>

subsection \<open>The loop over the entries of an object\<close>

text \<open>
  Writing the entries of an object one by one into a fresh object lists them in the same
  order, when no key occurs twice and none is \<open>__proto__\<close>.
\<close>

lemma define_prop_fresh:
  "key \<notin> fst ` set props \<Longrightarrow> define_prop key v props = props @ [(key, v)]"
  by (induction props) (auto split: if_splits)

lemma set_prop_fresh:
  "key \<noteq> ''__proto__'' \<Longrightarrow> key \<notin> fst ` set props \<Longrightarrow>
   set_prop key v props = props @ [(key, v)]"
  by (simp add: set_prop_def define_prop_fresh)

lemma fold_set_prop_distinct:
  "distinct (map fst acc @ map fst entries) \<Longrightarrow> ''__proto__'' \<notin> fst ` set entries \<Longrightarrow>
   fold (\<lambda>(key, v) normalized. set_prop key (f key v) normalized) entries acc
     = acc @ map (\<lambda>(key, v). (key, f key v)) entries"
proof (induction entries arbitrary: acc)
  case Nil
  then show ?case by simp
next
  case (Cons e entries)
  obtain k v where e: "e = (k, v)" by (cases e)
  from Cons.prems have fresh: "k \<notin> fst ` set acc" by (auto simp: e)
  from Cons.prems have ordinary: "k \<noteq> ''__proto__''" by (auto simp: e)
  from Cons.prems have rest: "''__proto__'' \<notin> fst ` set entries" by simp
  from Cons.prems have d: "distinct (map fst (acc @ [(k, f k v)]) @ map fst entries)"
    by (auto simp: e)
  show ?case
    using Cons.IH[OF d rest] by (simp add: e set_prop_fresh[OF ordinary fresh])
qed

lemma normalize_obj_fold:
  "normalizeToXml2jsFormat (JObj entries) =
     JObj (fold (\<lambda>(key, v) normalized. set_prop key (entry_value key v) normalized) entries [])"
proof -
  have "(\<lambda>(key, v) normalized.
              if key = ''$'' then set_prop key v normalized
              else (case v of
                      JArr items \<Rightarrow> set_prop key (JArr (map normalizeToXml2jsFormat items)) normalized
                    | JObj es \<Rightarrow> set_prop key (JArr [normalizeToXml2jsFormat (JObj es)]) normalized
                    | _ \<Rightarrow> set_prop key (JArr [v]) normalized))
        = (\<lambda>(key, v) normalized. set_prop key (entry_value key v) normalized)"
    by (auto simp: fun_eq_iff entry_value_def split: jsval.splits)
  then show ?thesis by simp
qed

lemma normalize_obj_distinct:
  assumes "distinct (map fst entries)" and "''__proto__'' \<notin> set (map fst entries)"
  shows "normalizeToXml2jsFormat (JObj entries) =
     JObj (map (\<lambda>(key, v). (key, entry_value key v)) entries)"
  using fold_set_prop_distinct[of "[]" entries entry_value] assms
  unfolding normalize_obj_fold by simp

subsection \<open>The case analysis\<close>

text \<open>
  C3. On every tree in which no object the normalizer rebuilds has an own property named
  \<open>__proto__\<close> (and, as in every tree, an object holds no key twice) the normalizer
  computes what the specification's case analysis says: \<open>null\<close> and \<open>undefined\<close> are
  returned unchanged; an array is mapped element by element by the same function, so
  order and length are kept; in an object the value under \<open>$\<close> is the original value, an
  array under another key is normalized element by element, an object under another key
  is normalized and wrapped in a one-element array, any other value is wrapped in a
  one-element array; a primitive at the top is wrapped in a one-element array.
\<close>

theorem normalize_case_analysis:
  "well_formed t \<Longrightarrow> proto_free t \<Longrightarrow> normalizeToXml2jsFormat t = normalize_spec t"
proof (induction t rule: normalizeToXml2jsFormat.induct)
  case (3 items)
  then show ?case by (simp add: list_all_iff)
next
  case (4 entries)
  from "4.prems" have d: "distinct (map fst entries)" by simp
  from "4.prems" have np: "''__proto__'' \<notin> set (map fst entries)" by simp
  have "map (\<lambda>(key, v). (key, entry_value key v)) entries =
        map (\<lambda>(key, v).
              if key = ''$'' then (key, v)
              else (case v of
                      JArr items \<Rightarrow> (key, JArr (map normalize_spec items))
                    | JPrim p \<Rightarrow> (key, JArr [v])
                    | _ \<Rightarrow> (key, JArr [normalize_spec v])))
            entries"
  proof (rule map_cong[OF refl])
    fix e assume e: "e \<in> set entries"
    obtain k v where kv: "e = (k, v)" by (cases e)
    from "4.prems" e kv have wf: "well_formed v" by (auto simp: list_all_iff)
    from "4.prems" e kv have pf: "k \<noteq> ''$'' \<Longrightarrow> proto_free v" by (auto simp: list_all_iff)
    show "(case e of (key, v) \<Rightarrow> (key, entry_value key v)) =
          (case e of (key, v) \<Rightarrow>
              if key = ''$'' then (key, v)
              else (case v of
                      JArr items \<Rightarrow> (key, JArr (map normalize_spec items))
                    | JPrim p \<Rightarrow> (key, JArr [v])
                    | _ \<Rightarrow> (key, JArr [normalize_spec v])))"
    proof (cases "k = ''$''")
      case True
      then show ?thesis by (simp add: kv entry_value_def)
    next
      case False
      show ?thesis
      proof (cases v)
        case (JArr items)
        have "map normalizeToXml2jsFormat items = map normalize_spec items"
          using "4.IH"(1)[OF e kv[symmetric] False JArr] wf pf[OF False] JArr
          by (simp add: list_all_iff)
        then show ?thesis using False by (simp add: kv entry_value_def JArr)
      next
        case (JObj es)
        have "normalizeToXml2jsFormat v = normalize_spec v"
          using "4.IH"(2)[OF e kv[symmetric] False JObj] wf pf[OF False] JObj by simp
        then show ?thesis using False by (simp add: kv entry_value_def JObj)
      qed (use False in \<open>simp_all add: kv entry_value_def\<close>)
    qed
  qed
  then show ?case using normalize_obj_distinct[OF d np] by simp
qed simp_all

theorem normalize_case_analysis_witness:
  "well_formed sample_tree \<and> proto_free sample_tree \<and>
   normalizeToXml2jsFormat sample_tree = normalize_spec sample_tree \<and>
   normalize_spec sample_tree =
     JObj [(''$'', JObj [(''key'', JPrim (PNum 1))]),
           (''title'', JArr [JPrim (PStr ''Cam1'')]),
           (''overlay'', JArr [JArr [JPrim (PStr ''a'')], JNull,
                               JObj [(''index'', JArr [JPrim (PNum 0)])]]),
           (''position'', JArr [JObj [(''panX'', JArr [JPrim (PBool True)])]]),
           (''empty'', JArr [JNull])]"
  using normalize_case_analysis[of sample_tree] by (simp add: sample_tree_def set_prop_def)

text \<open>
  Without the condition the case analysis fails: the object with the own properties
  \<open>__proto__\<close> and \<open>a\<close> is normalized to an object whose only own property is \<open>a\<close>,
  where the case analysis wraps the value of either key.
\<close>

theorem normalize_case_analysis_counterexample:
  "well_formed (JObj proto_entries) \<and>
   normalizeToXml2jsFormat (JObj proto_entries) \<noteq> normalize_spec (JObj proto_entries) \<and>
   normalizeToXml2jsFormat (JObj proto_entries) = JObj [(''a'', JArr [JPrim (PNum 2)])] \<and>
   normalize_spec (JObj proto_entries) =
     JObj [(''__proto__'', JArr [JPrim (PNum 1)]), (''a'', JArr [JPrim (PNum 2)])]"
  by (simp add: proto_entries_def set_prop_def)

subsection \<open>Keys, attributes and lengths\<close>

lemma map_of_map_entries:
  "map_of (map (\<lambda>(key, v). (key, f key v)) entries) k = map_option (f k) (map_of entries k)"
  by (induction entries) auto

lemma keys_map_entries: "map fst (map (\<lambda>(key, v). (key, f key v)) entries) = map fst entries"
  by (induction entries) auto

lemma entry_value_attributes: "entry_value ''$'' v = v"
  by (simp add: entry_value_def)

text \<open>
  C9. Normalizing an object that has no own property named \<open>__proto__\<close> yields an object
  with the same keys in the same order and the same value under \<open>$\<close> (or none, when the
  input has none); normalizing an array yields an array of the same length.
\<close>

theorem normalize_preserves_structure:
  "distinct (map fst entries) \<Longrightarrow> ''__proto__'' \<notin> set (map fst entries) \<Longrightarrow>
     is_object (normalizeToXml2jsFormat (JObj entries)) \<and>
     keys_of (normalizeToXml2jsFormat (JObj entries)) = keys_of (JObj entries) \<and>
     get_prop (normalizeToXml2jsFormat (JObj entries)) ''$'' = get_prop (JObj entries) ''$'' \<and>
     array_length (normalizeToXml2jsFormat (JArr items)) = array_length (JArr items)"
proof -
  assume d: "distinct (map fst entries)" and np: "''__proto__'' \<notin> set (map fst entries)"
  have "map_option (entry_value ''$'') (map_of entries ''$'') = map_of entries ''$''"
    by (cases "map_of entries ''$''") (simp_all add: entry_value_attributes)
  then show ?thesis
    unfolding normalize_obj_distinct[OF d np]
    by (auto simp: map_of_map_entries split: prod.splits)
qed

theorem normalize_preserves_structure_witness:
  "distinct (map fst [(''$'', JObj [(''key'', JPrim (PNum 1))]), (''title'', JPrim (PStr ''Cam1''))]) \<and>
   ''__proto__'' \<notin> set (map fst
      [(''$'', JObj [(''key'', JPrim (PNum 1))]), (''title'', JPrim (PStr ''Cam1''))]) \<and>
   keys_of (normalizeToXml2jsFormat
      (JObj [(''$'', JObj [(''key'', JPrim (PNum 1))]), (''title'', JPrim (PStr ''Cam1''))]))
     = [''$'', ''title''] \<and>
   get_prop (normalizeToXml2jsFormat
      (JObj [(''$'', JObj [(''key'', JPrim (PNum 1))]), (''title'', JPrim (PStr ''Cam1''))])) ''$''
     = Some (JObj [(''key'', JPrim (PNum 1))]) \<and>
   array_length (normalizeToXml2jsFormat (JArr [JNull, JPrim (PBool False)])) = Some 2"
  using normalize_preserves_structure[of
      "[(''$'', JObj [(''key'', JPrim (PNum 1))]), (''title'', JPrim (PStr ''Cam1''))]"
      "[JNull, JPrim (PBool False)]"]
  by (simp add: set_prop_def)

text \<open>
  Without the condition a key is dropped: the object with the own properties
  \<open>__proto__\<close> and \<open>a\<close> is normalized to an object whose only key is \<open>a\<close>.
\<close>

theorem normalize_preserves_structure_counterexample:
  "distinct (map fst proto_entries) \<and>
   keys_of (JObj proto_entries) = [''__proto__'', ''a''] \<and>
   keys_of (normalizeToXml2jsFormat (JObj proto_entries)) = [''a''] \<and>
   keys_of (normalizeToXml2jsFormat (JObj proto_entries)) \<noteq> keys_of (JObj proto_entries)"
  by (simp add: proto_entries_def set_prop_def)

subsection \<open>The canonical shape\<close>

lemma define_prop_subset: "set (define_prop key v props) \<subseteq> insert (key, v) (set props)"
  by (induction props) (auto split: if_splits)

lemma set_prop_subset: "set (set_prop key v props) \<subseteq> insert (key, v) (set props)"
  using define_prop_subset[of key v props] by (auto simp: set_prop_def)

lemma fold_set_prop_all:
  assumes "\<forall>(key, v) \<in> set acc. P key v" and "\<forall>(key, v) \<in> set entries. P key (f key v)"
  shows "\<forall>(key, v) \<in> set (fold (\<lambda>(key, v) normalized. set_prop key (f key v) normalized) entries acc). P key v"
  using assms
proof (induction entries arbitrary: acc)
  case Nil
  then show ?case by simp
next
  case (Cons e entries)
  obtain k v where e: "e = (k, v)" by (cases e)
  have "\<forall>(key, v) \<in> set (set_prop k (f k v) acc). P key v"
    using Cons.prems set_prop_subset[of k "f k v" acc] by (auto simp: e)
  then show ?case using Cons.IH[of "set_prop k (f k v) acc"] Cons.prems(2) by (simp add: e)
qed

lemma canonical_entry_value:
  assumes "\<And>items x. v = JArr items \<Longrightarrow> x \<in> set items \<Longrightarrow> canonical (normalizeToXml2jsFormat x)"
      and "\<And>es. v = JObj es \<Longrightarrow> canonical (normalizeToXml2jsFormat v)"
  shows "key = ''$'' \<or> (is_array (entry_value key v) \<and> canonical (entry_value key v))"
  using assms by (cases v) (auto simp: entry_value_def list_all_iff)

text \<open>
  C2. The output of the normalizer is in canonical shape whatever the input: in every
  element node, at every depth, every value under a key other than \<open>$\<close> is an array.
\<close>

theorem normalize_establishes_canonical_shape:
  "canonical (normalizeToXml2jsFormat t)"
proof (induction t rule: normalizeToXml2jsFormat.induct)
  case (3 items)
  then show ?case by (simp add: list_all_iff)
next
  case (4 entries)
  have "\<forall>(key, v) \<in> set entries.
          key = ''$'' \<or> (is_array (entry_value key v) \<and> canonical (entry_value key v))"
  proof (clarify)
    fix k v assume kv: "(k, v) \<in> set entries" and nis: "\<not> (is_array (entry_value k v) \<and> canonical (entry_value k v))"
    show "k = ''$''"
    proof (rule ccontr)
      assume k: "k \<noteq> ''$''"
      have "k = ''$'' \<or> (is_array (entry_value k v) \<and> canonical (entry_value k v))"
        by (rule canonical_entry_value) (use "4.IH" kv k in auto)
      with k nis show False by simp
    qed
  qed
  then have "\<forall>(key, v) \<in> set (fold (\<lambda>(key, v) normalized. set_prop key (entry_value key v) normalized) entries []).
               key = ''$'' \<or> (is_array v \<and> canonical v)"
    using fold_set_prop_all[of "[]" "\<lambda>key v. key = ''$'' \<or> (is_array v \<and> canonical v)" entries entry_value]
    by simp
  then show ?case unfolding normalize_obj_fold by (simp add: list_all_iff)
qed simp_all

theorem normalize_establishes_canonical_shape_witness:
  "canonical (normalizeToXml2jsFormat sample_tree) \<and> \<not> canonical sample_tree"
  using normalize_establishes_canonical_shape[of sample_tree]
  by (simp add: sample_tree_def set_prop_def)

subsection \<open>Normalizing twice\<close>

text \<open>
  C1. The normalizer is not idempotent. The object \<open>{title: 'Cam1'}\<close> is normalized to
  \<open>{title: ['Cam1']}\<close>, which is in canonical shape; normalizing that tree wraps the string
  again and yields \<open>{title: [['Cam1']]}\<close>, because an array under a key is mapped by the
  whole function, whose last branch wraps a primitive.
\<close>

theorem normalize_not_idempotent:
  "normalizeToXml2jsFormat (JObj [(''title'', JPrim (PStr ''Cam1''))]) =
     JObj [(''title'', JArr [JPrim (PStr ''Cam1'')])] \<and>
   canonical (JObj [(''title'', JArr [JPrim (PStr ''Cam1'')])]) \<and>
   normalizeToXml2jsFormat (JObj [(''title'', JArr [JPrim (PStr ''Cam1'')])]) =
     JObj [(''title'', JArr [JArr [JPrim (PStr ''Cam1'')]])]"
  by (simp add: set_prop_def)

subsection \<open>Termination\<close>

text \<open>
  A call stack as deep as the tree has nodes is enough for the recursion to return, and
  every recursive call is on a smaller tree.
\<close>

lemma those_map_Some:
  "(\<And>x. x \<in> set xs \<Longrightarrow> f x = Some (g x)) \<Longrightarrow> those (map f xs) = Some (map g xs)"
  by (induction xs) simp_all

lemma fold_option_steps:
  "(\<And>e acc. e \<in> set entries \<Longrightarrow> F e (Some acc) = Some (G e acc)) \<Longrightarrow>
   fold F entries (Some acc) = Some (fold G entries acc)"
  by (induction entries arbitrary: acc) simp_all

lemma nodes_item: "x \<in> set items \<Longrightarrow> nodes x < nodes (JArr items)"
  using member_le_sum_list[of "nodes x" "map nodes items"] by auto

lemma nodes_entry: "(key, v) \<in> set entries \<Longrightarrow> nodes v < nodes (JObj entries)"
  using member_le_sum_list[of "nodes v" "map (\<lambda>(key, v). nodes v) entries"] by force

lemma normalize_fuel_enough:
  "nodes t \<le> n \<Longrightarrow> normalize_fuel n t = Some (normalizeToXml2jsFormat t)"
proof (induction n arbitrary: t)
  case 0
  then show ?case by (cases t) simp_all
next
  case (Suc n)
  show ?case
  proof (cases t)
    case (JArr items)
    have "normalize_fuel n x = Some (normalizeToXml2jsFormat x)" if "x \<in> set items" for x
    proof -
      have "nodes x < nodes t" using that nodes_item[of x items] by (simp add: JArr)
      then have "nodes x \<le> n" using Suc.prems by simp
      then show ?thesis by (rule Suc.IH)
    qed
    then show ?thesis by (simp add: JArr those_map_Some)
  next
    case (JObj entries)
    let ?F = "\<lambda>(key, v) acc.
            case acc of
              None \<Rightarrow> None
            | Some normalized \<Rightarrow>
                if key = ''$'' then Some (set_prop key v normalized)
                else (case v of
                        JArr items \<Rightarrow>
                          map_option (\<lambda>items'. set_prop key (JArr items') normalized)
                            (those (map (normalize_fuel n) items))
                      | JObj es \<Rightarrow>
                          map_option (\<lambda>v'. set_prop key (JArr [v']) normalized)
                            (normalize_fuel n (JObj es))
                      | _ \<Rightarrow> Some (set_prop key (JArr [v]) normalized))"
    let ?G = "\<lambda>(key, v) normalized. set_prop key (entry_value key v) normalized"
    have "?F e (Some acc) = Some (?G e acc)" if e: "e \<in> set entries" for e acc
    proof -
      obtain k v where kv: "e = (k, v)" by (cases e)
      have small: "nodes v \<le> n" using nodes_entry[of k v entries] e kv Suc.prems JObj by simp
      show ?thesis
      proof (cases v)
        case (JArr items)
        have "normalize_fuel n x = Some (normalizeToXml2jsFormat x)" if "x \<in> set items" for x
        proof -
          have "nodes x < nodes v" using that nodes_item[of x items] by (simp add: JArr)
          then have "nodes x \<le> n" using small by simp
          then show ?thesis by (rule Suc.IH)
        qed
        then show ?thesis by (simp add: kv JArr entry_value_def those_map_Some)
      next
        case (JObj es)
        have "normalize_fuel n v = Some (normalizeToXml2jsFormat v)"
          using small by (rule Suc.IH)
        then show ?thesis by (simp add: kv JObj entry_value_def)
      qed (simp_all add: kv entry_value_def)
    qed
    then have "fold ?F entries (Some []) = Some (fold ?G entries [])"
      by (rule fold_option_steps)
    then show ?thesis unfolding JObj normalize_obj_fold by simp
  qed simp_all
qed

lemma recursive_calls_smaller: "a \<in> set (recursive_calls t) \<Longrightarrow> nodes a < nodes t"
proof (cases t)
  case (JArr items)
  assume "a \<in> set (recursive_calls t)"
  then show ?thesis using nodes_item[of a items] by (simp add: JArr)
next
  case (JObj entries)
  assume "a \<in> set (recursive_calls t)"
  then obtain k v where kv: "(k, v) \<in> set entries"
    and a: "a \<in> set (case v of JArr items \<Rightarrow> items | JObj es \<Rightarrow> [v] | _ \<Rightarrow> [])"
    by (auto simp: JObj split: if_splits)
  have "nodes a \<le> nodes v"
  proof (cases v)
    case (JArr items)
    then show ?thesis using a nodes_item[of a items] by simp
  qed (use a in simp_all)
  then show ?thesis using nodes_entry[OF kv] by (simp add: JObj)
qed simp_all

text \<open>
  C10. The normalizer returns on every finite tree: with a call stack as deep as the tree
  has nodes the bounded recursion returns the normalizer's result, and every recursive
  call is applied to a strict subterm of its argument (an array element or the value of
  an entry, or an element of such a value), which has fewer nodes.
\<close>

theorem normalize_terminates:
  "normalize_fuel (nodes t) t = Some (normalizeToXml2jsFormat t) \<and>
   (\<forall>a \<in> set (recursive_calls t). nodes a < nodes t)"
  using normalize_fuel_enough[of t "nodes t"] recursive_calls_smaller[of _ t] by simp

theorem normalize_terminates_witness:
  "nodes sample_tree = 12 \<and>
   normalize_fuel 12 sample_tree = Some (normalizeToXml2jsFormat sample_tree) \<and>
   normalize_fuel 1 sample_tree = None \<and>
   recursive_calls sample_tree =
     [JPrim (PStr ''a''), JNull, JObj [(''index'', JPrim (PNum 0))],
      JObj [(''panX'', JPrim (PBool True))]]"
  using normalize_terminates[of sample_tree]
  by (simp add: sample_tree_def numeral_eq_Suc set_prop_def)

section \<open>Properties of the fast-xml-parser adapter\<close>

text \<open>
  C7. For every document, \<open>parse\<close> of the normalizing adapter is the normalizer applied
  to the outcome of \<open>parse\<close> of the plain adapter (an error of the library passes
  through), and both adapters are constructed over the same parser options.
\<close>

theorem normalizing_adapter_is_composition:
  "FastXmlParserAdapter_parse lib FastXmlParserAdapter_new xml =
     map_sum id normalizeToXml2jsFormat
       (PlainFastXmlParserAdapter_parse lib PlainFastXmlParserAdapter_new xml) \<and>
   parser FastXmlParserAdapter_new = parser PlainFastXmlParserAdapter_new"
  by (simp add: FastXmlParserAdapter_parse_def PlainFastXmlParserAdapter_parse_def
      FastXmlParserAdapter_new_def PlainFastXmlParserAdapter_new_def split: sum.split)

theorem normalizing_adapter_is_composition_witness:
  "FastXmlParserAdapter_parse sample_lib FastXmlParserAdapter_new ''<vmix/>'' =
     Inr (JObj [(''vmix'', JArr [JPrim (PStr ''<vmix/>'')])]) \<and>
   PlainFastXmlParserAdapter_parse sample_lib PlainFastXmlParserAdapter_new ''<vmix/>'' =
     Inr (JObj [(''vmix'', JPrim (PStr ''<vmix/>''))]) \<and>
   FastXmlParserAdapter_parse sample_lib FastXmlParserAdapter_new [] =
     Inl ''unexpected end of input''"
  using normalizing_adapter_is_composition[of sample_lib "''<vmix/>''"]
    normalizing_adapter_is_composition[of sample_lib "[]"]
  by (simp add: PlainFastXmlParserAdapter_parse_def sample_lib_def set_prop_def)

section \<open>Properties of the dynamically loaded adapter\<close>

subsection \<open>The state after construction\<close>

lemma new_fields:
  "promises (RustWasmAdapter_new req) = [snd (loadWasm_body req initial)]"
  "loadPromise (RustWasmAdapter_new req) = Some 0"
  "waiting (RustWasmAdapter_new req) = []"
  "finished (RustWasmAdapter_new req) = []"
  "wasm (RustWasmAdapter_new req) = wasm (fst (loadWasm_body req initial))"
  "required (RustWasmAdapter_new req) = required (fst (loadWasm_body req initial))"
  by (auto simp: RustWasmAdapter_new_def loadWasm_def loadWasm_body_def initial_def Let_def
      split: prod.splits sum.splits option.splits init_result.splits)

lemma loadWasm_check_settled: "loadWasm_check s \<noteq> Pending"
  by (simp add: loadWasm_check_def)

lemma loadWasm_resume_settled: "loadWasm_resume s \<noteq> Pending"
  by (simp add: loadWasm_resume_def loadWasm_check_def split: option.splits init_result.splits)

lemma load_result_settled: "load_result req \<noteq> Pending"
  by (simp add: load_result_def loadWasm_resume_settled split: prod.splits)

lemma loadWasm_check_wasm: "wasm s = wasm s' \<Longrightarrow> loadWasm_check s = loadWasm_check s'"
  by (simp add: loadWasm_check_def)

lemma loadWasm_resume_wasm: "wasm s = wasm s' \<Longrightarrow> loadWasm_resume s = loadWasm_resume s'"
  using loadWasm_check_wasm[of s s']
  by (simp add: loadWasm_resume_def split: option.splits init_result.splits)

lemma parse_rest_wasm: "wasm s = wasm s' \<Longrightarrow> parse_rest s xml = parse_rest s' xml"
  by (simp add: parse_rest_def)

lemma load_result_cases:
  "snd (loadWasm_body req initial) = Pending \<Longrightarrow>
     load_result req = loadWasm_resume (RustWasmAdapter_new req)"
  "snd (loadWasm_body req initial) \<noteq> Pending \<Longrightarrow>
     load_result req = snd (loadWasm_body req initial)"
  by (auto simp: load_result_def initial_def new_fields(5) split: prod.splits
      intro: loadWasm_resume_wasm)

subsection \<open>The invariant\<close>

lemma inv_new: "inv req (RustWasmAdapter_new req)"
  unfolding inv_def
  by (cases "snd (loadWasm_body req initial) = Pending")
     (simp_all add: new_fields load_result_cases)

lemma outcome_fulfilled:
  "load_result req = Fulfilled \<Longrightarrow> wasm s = wasm (RustWasmAdapter_new req) \<Longrightarrow>
   parse_rest s xml = parse_outcome req xml"
  by (simp add: parse_outcome_def parse_rest_def)

lemma outcome_rejected:
  "load_result req = Rejected err \<Longrightarrow> parse_outcome req xml = Inl err"
  by (simp add: parse_outcome_def)

lemma inv_step:
  assumes "inv req s" and "step s s'"
  shows "inv req s'"
  using assms(2)
proof (cases rule: step.cases)
  case (parse_awaits r xml)
  with assms(1) show ?thesis by (auto simp: inv_def)
next
  case (parse_direct xml)
  with assms(1) have "load_result req = Fulfilled" using load_result_settled[of req]
    by (auto simp: inv_def)
  with assms(1) parse_direct show ?thesis
    by (auto simp: inv_def outcome_fulfilled)
next
  case (init_settles r)
  with assms(1) have p: "promises s = [Pending]" "snd (loadWasm_body req initial) = Pending" "r = 0"
    using load_result_settled[of req] by (auto simp: inv_def)
  have "loadWasm_resume s = load_result req"
    using load_result_cases(1)[OF p(2)] assms(1) loadWasm_resume_wasm[of s "RustWasmAdapter_new req"]
    by (simp add: inv_def)
  with assms(1) init_settles p show ?thesis
    using load_result_settled[of req] by (auto simp: inv_def)
next
  case (resume_rejected r xml err)
  with assms(1) have "load_result req = Rejected err"
    by (auto simp: inv_def)
  with assms(1) resume_rejected show ?thesis
    by (auto simp: inv_def outcome_rejected dest: notin_set_remove1)
next
  case (resume_fulfilled r xml)
  with assms(1) have lr: "load_result req = Fulfilled" "promises s = [Fulfilled]"
    by (auto simp: inv_def)
  with assms(1) resume_fulfilled show ?thesis
    by (auto simp: inv_def outcome_fulfilled dest: notin_set_remove1)
qed

lemma reachable_inv: "reachable req s \<Longrightarrow> inv req s"
  by (induction rule: reachable.induct) (auto intro: inv_new inv_step)

subsection \<open>Two runs\<close>

lemma new_dev_only:
  "RustWasmAdapter_new dev_only =
     \<lparr>wasm = Some sample_module, loadPromise = Some 0, promises = [Pending],
      required = [Production, Development], waiting = [], finished = []\<rparr>"
  by (simp add: RustWasmAdapter_new_def loadWasm_def loadWasm_body_def require_chain_def
      initial_def dev_only_def sample_module_def)

lemma reachable_dev_only_run: "reachable dev_only dev_only_run"
proof -
  let ?s1 = "RustWasmAdapter_new dev_only"
  let ?s2 = "?s1\<lparr>waiting := waiting ?s1 @ [(0, ''<vmix/>'')]\<rparr>"
  let ?s3 = "?s2\<lparr>promises := (promises ?s2)[0 := loadWasm_resume ?s2]\<rparr>"
  let ?s4 = "?s3\<lparr>waiting := remove1 (0, ''<vmix/>'') (waiting ?s3), loadPromise := None,
              finished := finished ?s3 @ [(''<vmix/>'', parse_rest ?s3 ''<vmix/>'')]\<rparr>"
  have r1: "reachable dev_only ?s1" by (rule reachable.constructed)
  have "step ?s1 ?s2" by (rule step.parse_awaits) (simp add: new_dev_only)
  with r1 have r2: "reachable dev_only ?s2" by (rule reachable.stepped)
  have "step ?s2 ?s3" by (rule step.init_settles) (simp_all add: new_dev_only)
  with r2 have r3: "reachable dev_only ?s3" by (rule reachable.stepped)
  have "step ?s3 ?s4"
    by (rule step.resume_fulfilled)
       (simp_all add: new_dev_only loadWasm_resume_def loadWasm_check_def has_parse_def
          sample_module_def)
  with r3 have r4: "reachable dev_only ?s4" by (rule reachable.stepped)
  have "?s4 = dev_only_run"
    by (simp add: new_dev_only dev_only_run_def parse_rest_def sample_module_def
        sample_parse_def loadWasm_resume_def loadWasm_check_def has_parse_def)
  with r4 show ?thesis by simp
qed

lemma new_broken_init:
  "RustWasmAdapter_new broken_init =
     \<lparr>wasm = Some \<lparr>default_fn = Some (InitRejects ''out of memory''), parse_fn = Some sample_parse\<rparr>,
      loadPromise = Some 0, promises = [Pending],
      required = [Production], waiting = [], finished = []\<rparr>"
  by (simp add: RustWasmAdapter_new_def loadWasm_def loadWasm_body_def require_chain_def
      initial_def broken_init_def)

lemma reachable_broken_init_run: "reachable broken_init broken_init_run"
proof -
  let ?s1 = "RustWasmAdapter_new broken_init"
  let ?s2 = "?s1\<lparr>waiting := waiting ?s1 @ [(0, ''<vmix/>'')]\<rparr>"
  let ?s3 = "?s2\<lparr>promises := (promises ?s2)[0 := loadWasm_resume ?s2]\<rparr>"
  let ?s4 = "?s3\<lparr>waiting := remove1 (0, ''<vmix/>'') (waiting ?s3),
              finished := finished ?s3 @ [(''<vmix/>'', Inl ''Failed to load Rust WASM module: out of memory'')]\<rparr>"
  have r1: "reachable broken_init ?s1" by (rule reachable.constructed)
  have "step ?s1 ?s2" by (rule step.parse_awaits) (simp add: new_broken_init)
  with r1 have r2: "reachable broken_init ?s2" by (rule reachable.stepped)
  have "step ?s2 ?s3" by (rule step.init_settles) (simp_all add: new_broken_init)
  with r2 have r3: "reachable broken_init ?s3" by (rule reachable.stepped)
  have "step ?s3 ?s4"
    by (rule step.resume_rejected)
       (simp_all add: new_broken_init loadWasm_resume_def failed_to_load_def)
  with r3 have r4: "reachable broken_init ?s4" by (rule reachable.stepped)
  have "?s4 = broken_init_run"
    by (simp add: new_broken_init broken_init_run_def loadWasm_resume_def failed_to_load_def)
  with r4 show ?thesis by simp
qed

subsection \<open>When the load starts, and who shares it\<close>

text \<open>
  C4. The load is eager and shared. The constructor starts the one load of the adapter
  before any \<open>parse\<close> call exists. In every state the adapter reaches afterwards there is
  still exactly one load; every suspended \<open>parse\<close> call awaits the promise of that load;
  \<open>loadPromise\<close> refers to that promise until a caller resumed by its fulfilment clears
  it, so a call that starts while the load is in flight awaits it; and every call that has
  settled has the outcome the one load determines: the load's error when the load failed,
  the loaded module's answer otherwise.
\<close>

theorem load_is_eager_and_shared:
  "reachable req s \<Longrightarrow>
     length (promises (RustWasmAdapter_new req)) = 1 \<and>
     waiting (RustWasmAdapter_new req) = [] \<and>
     finished (RustWasmAdapter_new req) = [] \<and>
     length (promises s) = 1 \<and>
     (\<forall>(r, xml) \<in> set (waiting s). r = 0) \<and>
     (loadPromise s = Some 0 \<or> loadPromise s = None \<and> promises s = [Fulfilled]) \<and>
     (\<forall>(xml, res) \<in> set (finished s). res = parse_outcome req xml)"
proof -
  assume "reachable req s"
  then have "inv req s" by (rule reachable_inv)
  then show ?thesis unfolding inv_def by (auto simp: new_fields)
qed

theorem load_is_eager_and_shared_witness:
  "reachable dev_only dev_only_run \<and>
   length (promises dev_only_run) = 1 \<and>
   finished dev_only_run =
     [(''<vmix/>'', Inr (JObj [(''vmix'', JArr [JPrim (PStr ''<vmix/>'')])]))] \<and>
   parse_outcome dev_only ''<vmix/>'' = Inr (JObj [(''vmix'', JArr [JPrim (PStr ''<vmix/>'')])])"
  using load_is_eager_and_shared[OF reachable_dev_only_run] reachable_dev_only_run
  by (simp add: dev_only_run_def)

text \<open>
  The load is not lazy: after construction, with no \<open>parse\<close> call made, the load's
  promise exists and two locations have been passed to \<open>require\<close>.
\<close>

theorem load_is_lazy_counterexample:
  "length (promises (RustWasmAdapter_new dev_only)) = 1 \<and>
   required (RustWasmAdapter_new dev_only) = [Production, Development] \<and>
   waiting (RustWasmAdapter_new dev_only) = [] \<and>
   finished (RustWasmAdapter_new dev_only) = []"
  by (simp add: new_dev_only)

subsection \<open>The probe order\<close>

lemma require_chain_expected:
  "fst (require_chain req) = expected_probes req"
  by (simp add: require_chain_def expected_probes_def probe_order_def loadable_def
      split: sum.splits)

lemma require_chain_first_loaded:
  "(case snd (require_chain req) of Inl _ \<Rightarrow> None | Inr m \<Rightarrow> m) = first_loaded req"
  by (simp add: require_chain_def first_loaded_def probe_order_def loadable_def
      split: sum.splits)

lemma loadWasm_body_initial:
  "required (fst (loadWasm_body req initial)) = fst (require_chain req)"
  "wasm (fst (loadWasm_body req initial)) =
     (case snd (require_chain req) of Inl _ \<Rightarrow> None | Inr m \<Rightarrow> m)"
  by (auto simp: loadWasm_body_def initial_def Let_def
      split: prod.splits sum.splits option.splits init_result.splits)

text \<open>
  C5. In every state of the adapter the locations passed to \<open>require\<close> are the production
  location, then the development location, then the sibling module, up to and including
  the first that loads; nothing is required after a success, and the module in use is the
  one that first location exports.
\<close>

theorem probe_order_first_success_wins:
  "reachable req s \<Longrightarrow> required s = expected_probes req \<and> wasm s = first_loaded req"
proof -
  assume "reachable req s"
  then have "inv req s" by (rule reachable_inv)
  then have "required s = required (RustWasmAdapter_new req)" "wasm s = wasm (RustWasmAdapter_new req)"
    by (simp_all add: inv_def)
  then show ?thesis
    by (simp add: new_fields loadWasm_body_initial require_chain_expected require_chain_first_loaded)
qed

theorem probe_order_first_success_wins_witness:
  "reachable dev_only dev_only_run \<and>
   required dev_only_run = [Production, Development] \<and>
   expected_probes dev_only = [Production, Development] \<and>
   wasm dev_only_run = Some sample_module \<and>
   first_loaded dev_only = Some sample_module"
  using probe_order_first_success_wins[OF reachable_dev_only_run] reachable_dev_only_run
  by (simp add: dev_only_run_def)

subsection \<open>An adapter that cannot be made available\<close>

lemma load_result_unfold:
  "load_result req =
     (case require_chain req of
        (locs, Inl err) \<Rightarrow> Rejected (failed_to_load err)
      | (locs, Inr None) \<Rightarrow> Rejected no_parse_export
      | (locs, Inr (Some m)) \<Rightarrow>
          (case default_fn m of
             Some (InitRejects err) \<Rightarrow> Rejected (failed_to_load err)
           | Some (InitThrows err) \<Rightarrow> Rejected (failed_to_load err)
           | _ \<Rightarrow> if parse_fn m = None then Rejected no_parse_export else Fulfilled))"
proof -
  obtain locs r where rc: "require_chain req = (locs, r)" by (cases "require_chain req")
  show ?thesis
  proof (cases r)
    case (Inl err)
    then show ?thesis by (simp add: rc load_result_def loadWasm_body_def initial_def)
  next
    case (Inr m)
    show ?thesis
    proof (cases m)
      case None
      then show ?thesis
        by (simp add: rc Inr load_result_def loadWasm_body_def initial_def loadWasm_check_def has_parse_def)
    next
      case (Some md)
      show ?thesis
      proof (cases "default_fn md")
        case None
        then show ?thesis
          by (simp add: rc Inr Some load_result_def loadWasm_body_def initial_def loadWasm_check_def
              has_parse_def)
      next
        case (Some i)
        then show ?thesis
          by (cases i)
             (simp_all add: rc Inr \<open>m = Some md\<close> load_result_def loadWasm_body_def initial_def
                loadWasm_resume_def loadWasm_check_def has_parse_def)
      qed
    qed
  qed
qed

lemma unavailable_unfold:
  "unavailable req =
     (case require_chain req of
        (locs, Inl err) \<Rightarrow> True
      | (locs, Inr None) \<Rightarrow> True
      | (locs, Inr (Some m)) \<Rightarrow> init_fails m \<or> parse_fn m = None)"
  by (simp add: unavailable_def first_loaded_def require_chain_def probe_order_def loadable_def
      split: sum.splits option.splits)

lemma unavailable_iff_rejected:
  "unavailable req \<longleftrightarrow> (\<exists>err. load_result req = Rejected err)"
  unfolding load_result_unfold unavailable_unfold
  by (auto simp: init_fails_def split: prod.splits sum.splits option.splits init_result.splits)

lemma rejected_load_error: "load_result req = Rejected err \<Longrightarrow> load_error err"
  unfolding load_result_unfold
  by (auto simp: load_error_def failed_to_load_def
      split: prod.splits sum.splits option.splits init_result.splits if_splits)

text \<open>
  C6. When no location yields a loadable module, or the initialisation fails, or the
  loaded module has no \<open>parse\<close> function, the load is rejected with one of the two
  messages of \<open>loadWasm\<close> and every \<open>parse\<close> call that settles is rejected with that
  error. A \<open>parse\<close> call returns a tree only when the adapter is available, and the tree
  is the answer of the \<open>parse\<close> function of the module that was loaded.
\<close>

theorem unavailable_adapter_rejects:
  "reachable req s \<Longrightarrow>
     (unavailable req \<longrightarrow>
        (\<exists>err. load_result req = Rejected err \<and> load_error err \<and>
               (\<forall>(xml, res) \<in> set (finished s). res = Inl err))) \<and>
     (\<forall>xml v. (xml, Inr v) \<in> set (finished s) \<longrightarrow>
        \<not> unavailable req \<and>
        (\<exists>m p. wasm s = Some m \<and> first_loaded req = Some m \<and> parse_fn m = Some p \<and>
               p xml = Inr v))"
proof -
  assume r: "reachable req s"
  then have i: "inv req s" by (rule reachable_inv)
  then have fin: "\<forall>(xml, res) \<in> set (finished s). res = parse_outcome req xml"
    and w: "wasm s = wasm (RustWasmAdapter_new req)"
    by (simp_all add: inv_def)
  have fl: "wasm s = first_loaded req"
    using w by (simp add: new_fields loadWasm_body_initial require_chain_first_loaded)
  have a: "unavailable req \<longrightarrow>
        (\<exists>err. load_result req = Rejected err \<and> load_error err \<and>
               (\<forall>(xml, res) \<in> set (finished s). res = Inl err))"
  proof
    assume "unavailable req"
    then obtain err where e: "load_result req = Rejected err"
      by (auto simp: unavailable_iff_rejected)
    then have "\<forall>(xml, res) \<in> set (finished s). res = Inl err"
      using fin by (auto simp: outcome_rejected)
    with e rejected_load_error[OF e] show
      "\<exists>err. load_result req = Rejected err \<and> load_error err \<and>
               (\<forall>(xml, res) \<in> set (finished s). res = Inl err)"
      by blast
  qed
  have b: "\<forall>xml v. (xml, Inr v) \<in> set (finished s) \<longrightarrow>
        \<not> unavailable req \<and>
        (\<exists>m p. wasm s = Some m \<and> first_loaded req = Some m \<and> parse_fn m = Some p \<and>
               p xml = Inr v)"
  proof (intro allI impI)
    fix xml v assume "(xml, Inr v) \<in> set (finished s)"
    with fin have po: "parse_outcome req xml = Inr v" by auto
    then have nr: "\<not> (\<exists>err. load_result req = Rejected err)"
      by (auto simp: parse_outcome_def)
    from po nr have "parse_rest (RustWasmAdapter_new req) xml = Inr v"
      by (cases "load_result req") (auto simp: parse_outcome_def)
    then have "parse_rest s xml = Inr v" using w parse_rest_wasm[of s "RustWasmAdapter_new req"] by simp
    then have "\<exists>m p. wasm s = Some m \<and> parse_fn m = Some p \<and> p xml = Inr v"
      by (auto simp: parse_rest_def split: option.splits)
    with nr fl show "\<not> unavailable req \<and>
        (\<exists>m p. wasm s = Some m \<and> first_loaded req = Some m \<and> parse_fn m = Some p \<and>
               p xml = Inr v)"
      by (auto simp: unavailable_iff_rejected)
  qed
  from a b show ?thesis by blast
qed

theorem unavailable_adapter_rejects_witness:
  "reachable broken_init broken_init_run \<and> unavailable broken_init \<and>
   load_result broken_init = Rejected ''Failed to load Rust WASM module: out of memory'' \<and>
   finished broken_init_run = [(''<vmix/>'', Inl ''Failed to load Rust WASM module: out of memory'')] \<and>
   reachable dev_only dev_only_run \<and> \<not> unavailable dev_only \<and>
   (''<vmix/>'', Inr (JObj [(''vmix'', JArr [JPrim (PStr ''<vmix/>'')])])) \<in> set (finished dev_only_run)"
proof -
  have u: "unavailable broken_init"
    by (simp add: unavailable_unfold require_chain_def broken_init_def init_fails_def)
  have f: "(''<vmix/>'', Inr (JObj [(''vmix'', JArr [JPrim (PStr ''<vmix/>'')])])) \<in> set (finished dev_only_run)"
    by (simp add: dev_only_run_def)
  have lr: "load_result broken_init = Rejected ''Failed to load Rust WASM module: out of memory''"
    by (simp add: load_result_unfold require_chain_def broken_init_def failed_to_load_def)
  from unavailable_adapter_rejects[OF reachable_broken_init_run] u
  have "\<forall>(xml, res) \<in> set (finished broken_init_run). res = Inl ''Failed to load Rust WASM module: out of memory''"
    using lr by auto
  moreover from unavailable_adapter_rejects[OF reachable_dev_only_run] f
  have "\<not> unavailable dev_only" by blast
  ultimately show ?thesis
    using u lr f reachable_broken_init_run reachable_dev_only_run
    by (simp add: broken_init_run_def)
qed

end
